theory Spec2Isabelle
  imports Main "HOL-Library.Sublist" "HOL-Library.AList" "HOL-Library.Char_ord"
begin

section \<open>Go values: strings, errors, panics\<close>

text \<open>
  A Go string is a sequence of bytes, so \<^typ>\<open>string\<close> (a list of 8-bit characters) is
  the model. The only characters the program compares with are ASCII (\<open>|\<close>, the
  backslash, \<open>$\<close>, \<open>{\<close>, \<open>}\<close>, \<open>,\<close>, \<open>=\<close>), and in UTF-8 no byte of a multi-byte
  sequence is below 0x80, so a loop \<^verbatim>\<open>for i, b := range key\<close> that only tests
  \<^verbatim>\<open>b == '|'\<close> visits exactly the byte positions holding that byte.
\<close>

datatype error =
    SyscallError string string  \<comment> \<open>\<^verbatim>\<open>os.NewSyscallError("setenv", EINVAL)\<close>\<close>
  | ErrorString string          \<comment> \<open>\<^verbatim>\<open>errors.New(text)\<close>\<close>
  | ForeignError string         \<comment> \<open>an error value made by a collaborator (file reader, converter)\<close>

datatype panic =
    IndexOutOfRange int nat     \<comment> \<open>index, length\<close>
  | SliceOutOfRange nat nat nat \<comment> \<open>low, high, length\<close>
  | PanicError error            \<comment> \<open>\<^verbatim>\<open>panic(err)\<close>\<close>

definition backslash :: char where
  "backslash = CHR 0x5C"

definition index :: "string \<Rightarrow> int \<Rightarrow> panic + char" where
  "index s i = (if 0 \<le> i \<and> i < int (length s) then Inr (s ! nat i)
                else Inl (IndexOutOfRange i (length s)))"

definition slice :: "string \<Rightarrow> nat \<Rightarrow> nat \<Rightarrow> panic + string" where
  "slice s lo hi = (if lo \<le> hi \<and> hi \<le> length s then Inr (take (hi - lo) (drop lo s))
                    else Inl (SliceOutOfRange lo hi (length s)))"

section \<open>Package strings\<close>

text \<open>
  \<^verbatim>\<open>strings.TrimSpace\<close> removes leading and trailing white space as Unicode defines it.
  The white-space runes and their UTF-8 encodings are: the ASCII ones (tab, line feed,
  vertical tab, form feed, carriage return, space), U+0085 and U+00A0 (two bytes), and
  U+1680, U+2000 .. U+200A, U+2028, U+2029, U+202F, U+205F, U+3000 (three bytes).
  \<open>spaceWidth s\<close> is the width in bytes of the white-space rune that starts \<open>s\<close>
  (0 when \<open>s\<close> does not start with one); \<open>spaceWidthLast\<close> is the same at the end.
\<close>

definition asciiSpace :: "char \<Rightarrow> bool" where
  "asciiSpace c = (c = CHR 0x09 \<or> c = CHR 0x0A \<or> c = CHR 0x0B \<or> c = CHR 0x0C
                   \<or> c = CHR 0x0D \<or> c = CHR 0x20)"

definition space2 :: "string list" where
  "space2 = [[CHR 0xC2, CHR 0x85], [CHR 0xC2, CHR 0xA0]]"

definition space3 :: "string list" where
  "space3 = [[CHR 0xE1, CHR 0x9A, CHR 0x80],
             [CHR 0xE2, CHR 0x80, CHR 0x80], [CHR 0xE2, CHR 0x80, CHR 0x81],
             [CHR 0xE2, CHR 0x80, CHR 0x82], [CHR 0xE2, CHR 0x80, CHR 0x83],
             [CHR 0xE2, CHR 0x80, CHR 0x84], [CHR 0xE2, CHR 0x80, CHR 0x85],
             [CHR 0xE2, CHR 0x80, CHR 0x86], [CHR 0xE2, CHR 0x80, CHR 0x87],
             [CHR 0xE2, CHR 0x80, CHR 0x88], [CHR 0xE2, CHR 0x80, CHR 0x89],
             [CHR 0xE2, CHR 0x80, CHR 0x8A], [CHR 0xE2, CHR 0x80, CHR 0xA8],
             [CHR 0xE2, CHR 0x80, CHR 0xA9], [CHR 0xE2, CHR 0x80, CHR 0xAF],
             [CHR 0xE2, CHR 0x81, CHR 0x9F], [CHR 0xE3, CHR 0x80, CHR 0x80]]"

definition spaceWidth :: "string \<Rightarrow> nat" where
  "spaceWidth s =
     (case s of [] \<Rightarrow> 0
      | c # _ \<Rightarrow> if asciiSpace c then 1
                 else if 2 \<le> length s \<and> List.member space2 (take 2 s) then 2
                 else if 3 \<le> length s \<and> List.member space3 (take 3 s) then 3
                 else 0)"

definition spaceWidthLast :: "string \<Rightarrow> nat" where
  "spaceWidthLast s =
     (if s = [] then 0
      else if asciiSpace (last s) then 1
      else if 2 \<le> length s \<and> List.member space2 (drop (length s - 2) s) then 2
      else if 3 \<le> length s \<and> List.member space3 (drop (length s - 3) s) then 3
      else 0)"

lemma spaceWidth_Nil: "0 < spaceWidth s \<Longrightarrow> 0 < length s"
  by (cases s) (simp_all add: spaceWidth_def)

lemma spaceWidthLast_Nil: "0 < spaceWidthLast s \<Longrightarrow> 0 < length s"
  by (cases "s = []") (simp_all add: spaceWidthLast_def)

function trimLeft :: "string \<Rightarrow> string" where
  "trimLeft s = (if spaceWidth s = 0 then s else trimLeft (drop (spaceWidth s) s))"
  by pat_completeness auto
termination
  by (relation "measure length") (simp_all, frule spaceWidth_Nil, arith)

function trimRight :: "string \<Rightarrow> string" where
  "trimRight s = (if spaceWidthLast s = 0 then s
                  else trimRight (take (length s - spaceWidthLast s) s))"
  by pat_completeness auto
termination
  by (relation "measure length") (simp_all, frule spaceWidthLast_Nil, arith)

declare trimLeft.simps [simp del] trimRight.simps [simp del]

definition TrimSpace :: "string \<Rightarrow> string" where
  "TrimSpace s = trimRight (trimLeft s)"

text \<open>
  \<^verbatim>\<open>strings.ReplaceAll(s, old, new)\<close>: the non-overlapping occurrences of \<open>old\<close>, found
  left to right, are replaced by \<open>new\<close>. The program calls it with the two-byte \<open>old\<close>
  "backslash, bar" only; the empty \<open>old\<close> (which Go treats rune by rune) is left as
  the identity here.
\<close>

fun ReplaceAll :: "string \<Rightarrow> string \<Rightarrow> string \<Rightarrow> string" where
  "ReplaceAll [] old new = []"
| "ReplaceAll (c # cs) old new =
     (if old \<noteq> [] \<and> prefix old (c # cs)
      then new @ ReplaceAll (drop (length old) (c # cs)) old new
      else c # ReplaceAll cs old new)"

text \<open>
  \<^verbatim>\<open>strings.Split(s, sep)\<close> and \<^verbatim>\<open>strings.Join(elems, sep)\<close> for the one-byte
  separator the program passes (\<open>","\<close>): \<open>Split\<close> cuts at every separator and always
  returns at least one element (\<open>Split "" ","\<close> is \<open>[""]\<close>); \<open>Join\<close> of no element is
  the empty string. \<^verbatim>\<open>strings.SplitN(s, sep, 2)\<close> cuts at the first separator only.
\<close>

fun Split :: "string \<Rightarrow> char \<Rightarrow> string list" where
  "Split [] sep = [[]]"
| "Split (c # cs) sep =
     (if c = sep then [] # Split cs sep
      else (case Split cs sep of [] \<Rightarrow> [[c]] | x # xs \<Rightarrow> (c # x) # xs))"

fun Join :: "string list \<Rightarrow> char \<Rightarrow> string" where
  "Join [] sep = []"
| "Join [x] sep = x"
| "Join (x # y # ys) sep = x @ sep # Join (y # ys) sep"

definition SplitN2 :: "string \<Rightarrow> char \<Rightarrow> string list" where
  "SplitN2 s sep =
     (if sep \<in> set s then [takeWhile (\<lambda>c. c \<noteq> sep) s, tl (dropWhile (\<lambda>c. c \<noteq> sep) s)]
      else [s])"

section \<open>The process environment (package os)\<close>

text \<open>
  The environment is the list of its (name, value) entries; a name is looked up from
  the front, and \<open>Setenv\<close> replaces the entry of the name or adds one. The lookup
  of the empty name finds nothing (\<^verbatim>\<open>syscall.Getenv\<close> returns at once). On Unix
  \<^verbatim>\<open>os.Setenv\<close> fails with EINVAL for an empty name, a name holding \<open>=\<close> or a NUL byte,
  and a value holding a NUL byte, and leaves the environment as it is.
\<close>

type_synonym environ = "(string \<times> string) list"

definition LookupEnv :: "environ \<Rightarrow> string \<Rightarrow> string option" where
  "LookupEnv env key = (if length key = 0 then None else map_of env key)"

definition Getenv :: "environ \<Rightarrow> string \<Rightarrow> string" where
  "Getenv env key = (case LookupEnv env key of None \<Rightarrow> [] | Some v \<Rightarrow> v)"

definition Setenv :: "environ \<Rightarrow> string \<Rightarrow> string \<Rightarrow> error option \<times> environ" where
  "Setenv env key v =
     (if key = [] \<or> CHR ''='' \<in> set key \<or> CHR 0x00 \<in> set key \<or> CHR 0x00 \<in> set v
      then (Some (SyscallError ''setenv'' ''invalid argument''), env)
      else (None, AList.update key v env))"

definition Environ :: "environ \<Rightarrow> string list" where
  "Environ env = map (\<lambda>(k, v). k @ CHR ''='' # v) env"

subsection \<open>os.Expand\<close>

text \<open>
  \<^verbatim>\<open>os.Expand(s, mapping)\<close> replaces \<open>${name}\<close> and \<open>$name\<close> in \<open>s\<close> by
  \<open>mapping(name)\<close>. \<open>getShellName\<close> is given the text after a \<open>$\<close> (never empty) and
  returns the name and the number of bytes it takes: a brace form \<open>{...}\<close> up to the
  first \<open>}\<close> (\<open>{}\<close> and an unclosed \<open>{\<close> are bad syntax with an empty name and are
  eaten), one special character, or the longest run of letters, digits and underscores.
  In the loop of \<open>Expand\<close>, a \<open>$\<close> that is the last byte is copied; an empty name of
  width 0 leaves the \<open>$\<close> in place. The recursion below is on the text still to scan:
  after a \<open>$\<close> the scan goes on \<open>w\<close> bytes further.
\<close>

definition isShellSpecialVar :: "char \<Rightarrow> bool" where
  "isShellSpecialVar c = List.member ''*#$@!?-0123456789'' c"

definition isAlphaNum :: "char \<Rightarrow> bool" where
  "isAlphaNum c = (c = CHR ''_'' \<or> (CHR ''0'' \<le> c \<and> c \<le> CHR ''9'')
                   \<or> (CHR ''a'' \<le> c \<and> c \<le> CHR ''z'') \<or> (CHR ''A'' \<le> c \<and> c \<le> CHR ''Z''))"

definition getShellName :: "string \<Rightarrow> string \<times> nat" where
  "getShellName s =
     (if hd s = CHR ''{'' then
        (if length s > 2 \<and> isShellSpecialVar (s ! 1) \<and> s ! 2 = CHR ''}'' then ([s ! 1], 3)
         else if CHR ''}'' \<in> set (tl s) then
           (let n = takeWhile (\<lambda>c. c \<noteq> CHR ''}'') (tl s)
            in if n = [] then ([], 2) else (n, length n + 2))
         else ([], 1))
      else if isShellSpecialVar (hd s) then ([hd s], 1)
      else (let n = takeWhile isAlphaNum s in (n, length n)))"

function os_Expand :: "string \<Rightarrow> (string \<Rightarrow> panic + string) \<Rightarrow> panic + string" where
  "os_Expand [] mapping = Inr []"
| "os_Expand (c # cs) mapping =
     (if c = CHR ''$'' \<and> cs \<noteq> [] then
        (case getShellName cs of (name, w) \<Rightarrow>
           (case (if name = [] \<and> w > 0 then Inr []
                  else if name = [] then Inr [c]
                  else mapping name) of
              Inl p \<Rightarrow> Inl p
            | Inr out \<Rightarrow>
                (case os_Expand (drop w cs) mapping of
                   Inl p \<Rightarrow> Inl p
                 | Inr rest \<Rightarrow> Inr (out @ rest))))
      else (case os_Expand cs mapping of Inl p \<Rightarrow> Inl p | Inr rest \<Rightarrow> Inr (c # rest)))"
  by pat_completeness auto
termination
  by (relation "measure (\<lambda>(s, m). length s)") auto

section \<open>Package env: the expansion engine (Expand)\<close>

text \<open>
  The function literal that \<open>Expand\<close> hands to \<open>os.Expand\<close> is \<open>expandKey\<close> below.
  Its first loop, \<^verbatim>\<open>for i, b := range key\<close>, is \<open>scanKeys\<close>: \<open>i\<close> is the byte position,
  and the loop state is \<open>envKeys\<close>, \<open>startIndex\<close> and \<open>withDefault\<close>. The reads
  \<^verbatim>\<open>key[0]\<close> and \<^verbatim>\<open>key[i-1]\<close> and the slices \<^verbatim>\<open>key[startIndex:i]\<close>,
  \<^verbatim>\<open>key[startIndex:]\<close> panic in Go when out of range, and so they do here. The
  second loop, over \<open>envKeys\<close>, is \<open>lookupKeys\<close>: it returns the value of the first
  name that \<open>os.LookupEnv\<close> finds, or \<open>defaultValue\<close>.
\<close>

function scanKeys ::
  "string \<Rightarrow> nat \<Rightarrow> string list \<Rightarrow> nat \<Rightarrow> bool \<Rightarrow> panic + (string list \<times> nat \<times> bool)"
where
  "scanKeys key i envKeys startIndex withDefault =
     (if i < length key then
        (if key ! i = CHR ''|'' then
           (case index key (int i - 1) of
              Inl p \<Rightarrow> Inl p
            | Inr c \<Rightarrow>
                if c \<noteq> backslash then
                  (case slice key startIndex i of
                     Inl p \<Rightarrow> Inl p
                   | Inr seg \<Rightarrow> scanKeys key (i + 1) (envKeys @ [seg]) (i + 1) True)
                else scanKeys key (i + 1) envKeys startIndex withDefault)
         else scanKeys key (i + 1) envKeys startIndex withDefault)
      else Inr (envKeys, startIndex, withDefault))"
  by pat_completeness auto
termination
  by (relation "measure (\<lambda>(key, i, envKeys, startIndex, withDefault). length key - i)") auto

declare scanKeys.simps [simp del]

fun lookupKeys :: "environ \<Rightarrow> string list \<Rightarrow> string \<Rightarrow> string" where
  "lookupKeys env [] defaultValue = defaultValue"
| "lookupKeys env (envKey # envKeys) defaultValue =
     (case LookupEnv env envKey of
        Some lookupEnv \<Rightarrow> lookupEnv
      | None \<Rightarrow> lookupKeys env envKeys defaultValue)"

definition expandKey :: "environ \<Rightarrow> string \<Rightarrow> panic + string" where
  "expandKey env key0 =
     (let key = TrimSpace key0 in
      case index key 0 of
        Inl p \<Rightarrow> Inl p
      | Inr c0 \<Rightarrow>
          (let withDefault = (c0 = CHR ''|'');
               key = (if c0 = CHR ''|'' then drop 1 key else key)
           in case scanKeys key 0 [] 0 withDefault of
                Inl p \<Rightarrow> Inl p
              | Inr (envKeys, startIndex, withDefault) \<Rightarrow>
                  if \<not> withDefault then Inr (lookupKeys env (envKeys @ [key]) [])
                  else (case slice key startIndex (length key) of
                          Inl p \<Rightarrow> Inl p
                        | Inr d \<Rightarrow>
                            Inr (lookupKeys env envKeys
                                   (ReplaceAll d [backslash, CHR ''|''] ''|'')))))"

definition Expand :: "environ \<Rightarrow> string \<Rightarrow> panic + string" where
  "Expand env key = os_Expand key (expandKey env)"

section \<open>Package env: the typed accessors\<close>

text \<open>
  A Go result \<^verbatim>\<open>(T, error)\<close> is a pair of the value and an optional error (\<open>None\<close> is
  \<^verbatim>\<open>nil\<close>); a function that writes the environment returns the error and the new
  environment. The converters of packages \<^verbatim>\<open>strconv\<close> and \<^verbatim>\<open>encoding/json\<close> are
  collaborators of the package and are parameters of the getters that use them.
\<close>

definition Set :: "environ \<Rightarrow> string \<Rightarrow> string \<Rightarrow> error option \<times> environ" where
  "Set env key v = Setenv env key v"

definition SetStrings :: "environ \<Rightarrow> string \<Rightarrow> string list \<Rightarrow> error option \<times> environ" where
  "SetStrings env key v = Setenv env key (Join v CHR '','')"

definition Get :: "environ \<Rightarrow> string \<Rightarrow> string" where
  "Get env key = Getenv env key"

definition GetOr :: "environ \<Rightarrow> string \<Rightarrow> string \<Rightarrow> string" where
  "GetOr env key defaultValue =
     (case LookupEnv env key of Some v \<Rightarrow> v | None \<Rightarrow> defaultValue)"

definition GetT :: "environ \<Rightarrow> string \<Rightarrow> (string \<Rightarrow> 'a \<times> error option) \<Rightarrow> 'a \<times> error option" where
  "GetT env key convert = convert (Getenv env key)"

definition MustGetT :: "environ \<Rightarrow> string \<Rightarrow> (string \<Rightarrow> 'a \<times> error option) \<Rightarrow> panic + 'a" where
  "MustGetT env key convert =
     (case GetT env key convert of
        (v, None) \<Rightarrow> Inr v
      | (v, Some err) \<Rightarrow> Inl (PanicError err))"

definition GetTOr ::
  "environ \<Rightarrow> string \<Rightarrow> (string \<Rightarrow> 'a \<times> error option) \<Rightarrow> 'a \<Rightarrow> 'a \<times> error option" where
  "GetTOr env key convert defaultValue =
     (case LookupEnv env key of
        Some v \<Rightarrow>
          (case convert v of
             (v', Some err) \<Rightarrow> (defaultValue, Some err)
           | (v', None) \<Rightarrow> (v', None))
      | None \<Rightarrow> (defaultValue, None))"







definition GetStrings :: "environ \<Rightarrow> string \<Rightarrow> string list \<times> error option" where
  "GetStrings env key = GetT env key (\<lambda>s. (Split s CHR '','', None))"

definition MustGetStrings :: "environ \<Rightarrow> string \<Rightarrow> panic + string list" where
  "MustGetStrings env key = MustGetT env key (\<lambda>s. (Split s CHR '','', None))"

definition GetStringsOr :: "environ \<Rightarrow> string \<Rightarrow> string list \<Rightarrow> string list \<times> error option" where
  "GetStringsOr env key defaultValue =
     GetTOr env key
       (\<lambda>s. if s = [] \<and> LookupEnv env key = None
            then ([], Some (ErrorString ''env not found''))
            else (Split s CHR '','', None))
       defaultValue"

section \<open>Package env: the file loaders\<close>

text \<open>
  \<^verbatim>\<open>godotenv.Read(filename)\<close> is the parameter \<open>Read\<close>: for a file name it gives the
  reader's error or the map of the file. A Go map is ranged over in an order the
  language leaves open, so the map is given as the list of its entries in the order
  the \<^verbatim>\<open>range\<close> loop visits them; every statement below holds for every such order.
  A loader can return an error, return \<^verbatim>\<open>nil\<close>, or panic inside \<open>Expand\<close>; when it
  returns, the environment it leaves is part of the result.
\<close>

type_synonym reader = "string \<Rightarrow> error + (string \<times> string) list"

definition currentKeys :: "environ \<Rightarrow> string set" where
  "currentKeys env = set (map (\<lambda>v. hd (SplitN2 v CHR ''='')) (Environ env))"

fun loadEntries ::
  "string set \<Rightarrow> (string \<times> string) list \<Rightarrow> environ \<Rightarrow> panic + (error option \<times> environ)" where
  "loadEntries cur [] env = Inr (None, env)"
| "loadEntries cur ((k, v) # kvs) env =
     (if k \<notin> cur then
        (case Expand env v of
           Inl p \<Rightarrow> Inl p
         | Inr v' \<Rightarrow>
             (case Set env k v' of
                (Some err, env') \<Rightarrow> Inr (Some err, env')
              | (None, env') \<Rightarrow> loadEntries cur kvs env'))
      else loadEntries cur kvs env)"

fun loadFiles ::
  "reader \<Rightarrow> string set \<Rightarrow> string list \<Rightarrow> environ \<Rightarrow> panic + (error option \<times> environ)" where
  "loadFiles Read cur [] env = Inr (None, env)"
| "loadFiles Read cur (filename # filenames) env =
     (case Read filename of
        Inl err \<Rightarrow> Inr (Some err, env)
      | Inr envMap \<Rightarrow>
          (case loadEntries cur envMap env of
             Inl p \<Rightarrow> Inl p
           | Inr (Some err, env') \<Rightarrow> Inr (Some err, env')
           | Inr (None, env') \<Rightarrow> loadFiles Read cur filenames env'))"

definition Load :: "reader \<Rightarrow> string list \<Rightarrow> environ \<Rightarrow> panic + (error option \<times> environ)" where
  "Load Read filenames env =
     (let filenames = (if length filenames = 0 then filenames @ [''.env''] else filenames)
      in loadFiles Read (currentKeys env) filenames env)"

fun overrideEntries ::
  "(string \<times> string) list \<Rightarrow> environ \<Rightarrow> panic + (error option \<times> environ)" where
  "overrideEntries [] env = Inr (None, env)"
| "overrideEntries ((k, v) # kvs) env =
     (case os_Expand v (Expand env) of
        Inl p \<Rightarrow> Inl p
      | Inr v' \<Rightarrow>
          (case Set env k v' of
             (Some err, env') \<Rightarrow> Inr (Some err, env')
           | (None, env') \<Rightarrow> overrideEntries kvs env'))"

fun Override :: "reader \<Rightarrow> string list \<Rightarrow> environ \<Rightarrow> panic + (error option \<times> environ)" where
  "Override Read [] env = Inr (None, env)"
| "Override Read (filename # filenames) env =
     (case Read filename of
        Inl err \<Rightarrow> Inr (Some err, env)
      | Inr envMap \<Rightarrow>
          (case overrideEntries envMap env of
             Inl p \<Rightarrow> Inl p
           | Inr (Some err, env') \<Rightarrow> Inr (Some err, env')
           | Inr (None, env') \<Rightarrow> Override Read filenames env'))"

section \<open>The resolution algorithm in the words of the specification\<close>

text \<open>
  Sections 3 and 4.1 of the specification give the algorithm for a placeholder body;
  the definitions named \<open>spec_...\<close> follow its words, not the code.
  Step 1 trims the body. Step 2: a body that starts with a bar has a default, and the
  bar is stripped. Steps 3 and 4: the text is scanned left to right; a bar preceded
  by a backslash is a literal character of the current segment, every other bar ends
  a segment (\<open>spec_segments\<close>, whose first argument says whether the character before
  is a backslash); when a bar was found, or stripped in step 2, all segments but the
  last are the candidate keys as written and the last is the default value as
  written; otherwise the one segment is the only candidate key and there is no
  default (\<open>spec_written_keys\<close>). A literal bar inside a key or a default is written
  "backslash, bar" and is unescaped before use (section 3, and the rows with an
  escaped bar in the table of section 4.1): \<open>spec_unescape\<close> turns each "backslash,
  bar" into a bar, and it is applied to the default value (\<open>spec_default\<close>) and to
  every candidate key (\<open>spec_pick\<close>). Step 5: the value of the first candidate key
  that is set is returned, an empty value too (\<open>spec_first_set\<close>); when none is
  set, the default value, and the empty string when there is none (\<open>spec_choose\<close>).
  A trimmed body is well formed when it is not empty and does not start with two
  bars: the starts-with-bar form of the grammar is one bar and a default.
  \<open>spec_keys_plain\<close> says that no candidate key of the body is written with an
  escaped bar.
\<close>

fun spec_segments :: "bool \<Rightarrow> string \<Rightarrow> string \<Rightarrow> string list" where
  "spec_segments escaped cur [] = [cur]"
| "spec_segments escaped cur (c # cs) =
     (if c = CHR ''|'' \<and> \<not> escaped then cur # spec_segments False [] cs
      else spec_segments (c = backslash) (cur @ [c]) cs)"

fun spec_unescape :: "string \<Rightarrow> string" where
  "spec_unescape (a # b # s) =
     (if a = backslash \<and> b = CHR ''|'' then CHR ''|'' # spec_unescape s
      else a # spec_unescape (b # s))"
| "spec_unescape s = s"

fun spec_first_set :: "environ \<Rightarrow> string list \<Rightarrow> string option" where
  "spec_first_set env [] = None"
| "spec_first_set env (k # ks) =
     (case LookupEnv env k of Some v \<Rightarrow> Some v | None \<Rightarrow> spec_first_set env ks)"

definition spec_written_keys :: "bool \<Rightarrow> string list \<Rightarrow> string list" where
  "spec_written_keys leadingBar segments =
     (if leadingBar \<or> 1 < length segments then butlast segments else segments)"

definition spec_default :: "bool \<Rightarrow> string list \<Rightarrow> string" where
  "spec_default leadingBar segments =
     (if leadingBar \<or> 1 < length segments then spec_unescape (last segments) else [])"

definition spec_choose :: "environ \<Rightarrow> string list \<Rightarrow> string \<Rightarrow> string" where
  "spec_choose env keys defaultValue =
     (case spec_first_set env keys of Some v \<Rightarrow> v | None \<Rightarrow> defaultValue)"

definition spec_pick :: "environ \<Rightarrow> bool \<Rightarrow> string list \<Rightarrow> string" where
  "spec_pick env leadingBar segments =
     spec_choose env (map spec_unescape (spec_written_keys leadingBar segments))
       (spec_default leadingBar segments)"

definition spec_resolve :: "environ \<Rightarrow> string \<Rightarrow> string" where
  "spec_resolve env body =
     (let trimmed = TrimSpace body;
          leadingBar = (hd trimmed = CHR ''|'');
          segments = spec_segments False [] (if leadingBar then tl trimmed else trimmed)
      in spec_pick env leadingBar segments)"

definition spec_keys_plain :: "string \<Rightarrow> bool" where
  "spec_keys_plain body =
     (let trimmed = TrimSpace body;
          leadingBar = (hd trimmed = CHR ''|'');
          segments = spec_segments False [] (if leadingBar then tl trimmed else trimmed)
      in map spec_unescape (spec_written_keys leadingBar segments)
           = spec_written_keys leadingBar segments)"

definition spec_wellformed :: "string \<Rightarrow> bool" where
  "spec_wellformed body = (TrimSpace body \<noteq> [] \<and> \<not> prefix ''||'' (TrimSpace body))"

section \<open>Two file readers for the examples\<close>

definition twoFiles :: reader where
  "twoFiles filename =
     (if filename = ''a.env'' then Inr [(''K'', ''x''), (''L'', ''${K|d}'')]
      else Inl (ForeignError ''parse error''))"

definition oneFile :: reader where
  "oneFile filename = Inr [(''K'', ''x''), (''N'', ''${K}/${M|none}'')]"

section \<open>Text without a dollar sign is left as it is\<close>

lemma takeWhile_sep: "sep \<notin> set k \<Longrightarrow> takeWhile (\<lambda>c. c \<noteq> sep) (k @ sep # v) = k"
  by (induction k) auto

lemma os_Expand_no_dollar: "CHR ''$'' \<notin> set s \<Longrightarrow> os_Expand s m = Inr s"
  by (induction s) auto

text \<open>
  Claim C4, as stated: every string with no occurrence of \<open>${\<close> is expanded to itself.
  \<open>os.Expand\<close> also expands the brace-less form \<open>$name\<close>, so the statement fails at
  \<open>$X\<close>: with \<open>X\<close> unset the result is the empty string.
\<close>

theorem Expand_identity_counterexample:
  "\<not> sublist ''${'' ''$X'' \<and> Expand [] ''$X'' \<noteq> Inr ''$X''"
  by code_simp

text \<open>
  Claim C4, amended: for every string \<open>s\<close> that contains no \<open>$\<close> character, and every
  environment, \<open>Expand s\<close> returns \<open>s\<close>.
\<close>

theorem Expand_identity_without_dollar:
  "CHR ''$'' \<notin> set s \<Longrightarrow> Expand env s = Inr s"
  unfolding Expand_def by (rule os_Expand_no_dollar)

theorem Expand_identity_without_dollar_witness:
  "CHR ''$'' \<notin> set ''a{b}|c'' \<and> Expand [(''b'', ''v'')] ''a{b}|c'' = Inr ''a{b}|c''"
  using Expand_identity_without_dollar [of "''a{b}|c''" "[(''b'', ''v'')]"] by simp

section \<open>The typed getters\<close>

text \<open>
  Claim C10: \<open>GetStringsOr\<close> never returns its "env not found" error. For every
  environment, key and default: when the key is unset the result is the default with
  no error, and when it is set, to the empty string too, the result is the value split
  at the commas with no error.
\<close>

theorem GetStringsOr_never_fails:
  "GetStringsOr env key d =
     (case LookupEnv env key of None \<Rightarrow> (d, None) | Some v \<Rightarrow> (Split v CHR '','', None))"
  by (simp add: GetStringsOr_def GetTOr_def split: option.splits)



section \<open>String lists: join, then split\<close>

lemma Split_no_sep: "sep \<notin> set x \<Longrightarrow> Split x sep = [x]"
  by (induction x) auto

lemma Split_append_sep:
  "sep \<notin> set x \<Longrightarrow> Split (x @ sep # r) sep = x # Split r sep"
  by (induction x) auto

lemma Split_Join:
  "v \<noteq> [] \<Longrightarrow> \<forall>x\<in>set v. sep \<notin> set x \<Longrightarrow> Split (Join v sep) sep = v"
  by (induction v sep rule: Join.induct) (auto simp: Split_no_sep Split_append_sep)

lemma set_Join: "set (Join v sep) \<subseteq> insert sep (\<Union>x\<in>set v. set x)"
  by (induction v sep rule: Join.induct) auto

text \<open>
  Claim C8, as stated: for every list \<open>v\<close> and key \<open>K\<close>, \<open>MustGetStrings K\<close> after
  \<open>SetStrings K v\<close> is \<open>v\<close>. It fails for the empty list, which is stored as the empty
  string and read back as the list of one empty string, and for an element that holds
  a comma, which is read back as two elements.
\<close>

theorem SetStrings_MustGetStrings_counterexample:
  "fst (SetStrings [] ''K'' []) = None
   \<and> MustGetStrings (snd (SetStrings [] ''K'' [])) ''K'' \<noteq> Inr []
   \<and> fst (SetStrings [] ''K'' [''a,b'']) = None
   \<and> MustGetStrings (snd (SetStrings [] ''K'' [''a,b''])) ''K'' \<noteq> Inr [''a,b'']"
  by code_simp

text \<open>
  Claim C8, amended: for every key \<open>K\<close> that \<open>os.Setenv\<close> accepts (not empty, no \<open>=\<close>,
  no NUL byte) and every list \<open>v\<close> that is not empty and whose elements hold neither a
  comma nor a NUL byte, \<open>SetStrings K v\<close> succeeds and \<open>MustGetStrings K\<close> then returns
  \<open>v\<close>, whatever the environment was before.
\<close>

theorem SetStrings_MustGetStrings:
  assumes "K \<noteq> []" and "CHR ''='' \<notin> set K" and "CHR 0x00 \<notin> set K"
    and "v \<noteq> []" and "\<forall>x\<in>set v. CHR '','' \<notin> set x \<and> CHR 0x00 \<notin> set x"
  shows "fst (SetStrings env K v) = None
       \<and> MustGetStrings (snd (SetStrings env K v)) K = Inr v"
proof -
  have nul: "CHR 0x00 \<notin> set (Join v CHR '','')"
    using set_Join [of v "CHR '',''"] assms(5) by auto
  then have ok: "SetStrings env K v = (None, AList.update K (Join v CHR '','') env)"
    using assms(1-3) by (simp add: SetStrings_def Setenv_def)
  have "Getenv (AList.update K (Join v CHR '','') env) K = Join v CHR '',''"
    using assms(1) by (simp add: Getenv_def LookupEnv_def update_conv')
  moreover have "Split (Join v CHR '','') CHR '','' = v"
    using assms(4,5) by (intro Split_Join) auto
  ultimately show ?thesis
    using ok by (simp add: MustGetStrings_def MustGetT_def GetT_def)
qed

theorem SetStrings_MustGetStrings_witness:
  "fst (SetStrings [(''K'', ''old'')] ''K'' [''a'', [], ''c'']) = None
   \<and> MustGetStrings (snd (SetStrings [(''K'', ''old'')] ''K'' [''a'', [], ''c''])) ''K''
       = Inr [''a'', [], ''c'']"
  using SetStrings_MustGetStrings [of "''K''" "[''a'', [], ''c'']" "[(''K'', ''old'')]"]
  by simp

section \<open>Loading several files: the first failing file ends the call\<close>

lemma loadFiles_append_fail:
  "loadFiles Read cur before env = Inr (None, env') \<Longrightarrow> Read f = Inl e \<Longrightarrow>
     loadFiles Read cur (before @ f # rest) env = Inr (Some e, env')"
  by (induction before arbitrary: env) (auto split: sum.splits option.splits prod.splits)

lemma Override_append_fail:
  "Override Read before env = Inr (None, env') \<Longrightarrow> Read f = Inl e \<Longrightarrow>
     Override Read (before @ f # rest) env = Inr (Some e, env')"
  by (induction before arbitrary: env) (auto split: sum.splits option.splits prod.splits)

text \<open>
  Claim C7: when the reader fails on a file \<open>f\<close> with the error \<open>e\<close>, \<open>Load\<close> and
  \<open>Override\<close> return exactly \<open>e\<close>, whatever files follow \<open>f\<close> in the call, and the
  environment they leave is the one the files before \<open>f\<close> produced: if the call on the
  files \<open>before\<close> alone returns \<^verbatim>\<open>nil\<close> and leaves \<open>envL\<close> (\<open>envO\<close>), the call on
  \<open>before\<close>, \<open>f\<close> and any \<open>rest\<close> returns \<open>e\<close> and leaves \<open>envL\<close> (\<open>envO\<close>). With no
  file before \<open>f\<close> the environment is unchanged. (\<open>Load\<close> of an empty list reads the
  file \<open>.env\<close>, hence \<open>before \<noteq> []\<close> in its case.)
\<close>

theorem load_stops_at_failing_file:
  assumes "Read f = Inl e"
  shows "Load Read (f # rest) env = Inr (Some e, env)
       \<and> (before \<noteq> [] \<and> Load Read before env = Inr (None, envL)
            \<longrightarrow> Load Read (before @ f # rest) env = Inr (Some e, envL))
       \<and> (Override Read before env = Inr (None, envO)
            \<longrightarrow> Override Read (before @ f # rest) env = Inr (Some e, envO))"
  using assms by (auto simp: Load_def loadFiles_append_fail Override_append_fail)

theorem load_stops_at_failing_file_witness:
  "twoFiles ''b.env'' = Inl (ForeignError ''parse error'')
   \<and> Load twoFiles [''a.env''] [] = Inr (None, [(''K'', ''x''), (''L'', ''x'')])
   \<and> Load twoFiles [''a.env'', ''b.env'', ''a.env''] []
       = Inr (Some (ForeignError ''parse error''), [(''K'', ''x''), (''L'', ''x'')])
   \<and> Override twoFiles [''a.env''] [] = Inr (None, [(''K'', ''x''), (''L'', ''K|d'')])
   \<and> Override twoFiles [''a.env'', ''b.env'', ''a.env''] []
       = Inr (Some (ForeignError ''parse error''), [(''K'', ''x''), (''L'', ''K|d'')])"
proof -
  have bad: "twoFiles ''b.env'' = Inl (ForeignError ''parse error'')"
    by (simp add: twoFiles_def)
  have l: "Load twoFiles [''a.env''] [] = Inr (None, [(''K'', ''x''), (''L'', ''x'')])"
    by code_simp
  have ov: "Override twoFiles [''a.env''] [] = Inr (None, [(''K'', ''x''), (''L'', ''K|d'')])"
    by code_simp
  show ?thesis
    using bad l ov
      load_stops_at_failing_file [of twoFiles "''b.env''" "ForeignError ''parse error''"
        "[''a.env'']" "[]" "[''a.env'']"
        "[(''K'', ''x''), (''L'', ''x'')]" "[(''K'', ''x''), (''L'', ''K|d'')]"]
    by simp
qed

section \<open>Where the code leaves its documented behaviour\<close>

text \<open>
  Claim C5 says that \<open>Override\<close> commits \<open>Expand\<close> of the raw file value. The code
  commits \<^verbatim>\<open>os.Expand(v, Expand)\<close> instead: \<open>os.Expand\<close> cuts the placeholder body out
  and hands the body, without its \<open>${\<close> and \<open>}\<close>, to \<open>Expand\<close>, which finds no
  placeholder in it and returns it as it is. For the raw value \<open>${A|def}\<close> with \<open>A\<close>
  unset, \<open>Override\<close> stores \<open>A|def\<close>, while \<open>Expand\<close> (and so \<open>Load\<close>) gives \<open>def\<close>.
\<close>

theorem Override_value_differs:
  "Override (\<lambda>filename. Inr [(''K'', ''${A|def}'')]) [''f''] [] = Inr (None, [(''K'', ''A|def'')])
   \<and> Load (\<lambda>filename. Inr [(''K'', ''${A|def}'')]) [''f''] [] = Inr (None, [(''K'', ''def'')])
   \<and> Expand [] ''${A|def}'' = Inr ''def''"
  by code_simp

text \<open>
  Claim C2 says that \<open>Expand\<close> returns a string for every input. A placeholder body of
  white space only is trimmed to the empty string, and \<^verbatim>\<open>key[0]\<close> panics; a body that
  starts with two bars loses the first one, and at the second one \<^verbatim>\<open>key[i-1]\<close> is read
  with \<open>i = 0\<close> and panics. Both happen in every environment.
\<close>

theorem Expand_panics:
  "Expand env ''${ }'' = Inl (IndexOutOfRange 0 0)
   \<and> Expand env ''${||}'' = Inl (IndexOutOfRange (- 1) 1)"
  by code_simp

text \<open>
  Claim C3 says that an escaped bar is unescaped in a candidate key as it is in the
  default value. The code unescapes the default only: a candidate key is the raw
  slice \<^verbatim>\<open>key[startIndex:i]\<close>. For the body \<open>KEY\|_SUFFIX|default\<close> the variable
  \<open>KEY|_SUFFIX\<close> is not looked up (the result is the default although it is set); the
  name looked up is \<open>KEY\|_SUFFIX\<close>, backslash included. The default value
  \<open>default_val\|ue\<close> is returned as \<open>default_val|ue\<close>.
\<close>

theorem Expand_key_keeps_backslash:
  "Expand [(''KEY|_SUFFIX'', ''v'')] (''${KEY'' @ [backslash] @ ''|_SUFFIX|default}'')
     = Inr ''default''
   \<and> Expand [(''KEY'' @ [backslash] @ ''|_SUFFIX'', ''v'')]
        (''${KEY'' @ [backslash] @ ''|_SUFFIX|default}'') = Inr ''v''
   \<and> Expand [] (''${KEY|default_val'' @ [backslash] @ ''|ue}'') = Inr ''default_val|ue''"
  by code_simp

text \<open>
  Claim C1 says that for every well-formed placeholder body \<open>Expand\<close> tries the
  candidate keys in the order listed and returns the value of the first one that is
  set, and the default or the empty string only when none is set. A candidate key
  written with an escaped bar is never found, since the name looked up keeps the
  backslash. For the body \<open>A\|B|C|d\<close> the candidate keys are \<open>A|B\<close> and \<open>C\<close>; with
  both set, the code returns the value of \<open>C\<close>, the second one. For the body
  \<open>ENV_KEY\|_USERNAME\<close>, whose only candidate key \<open>ENV_KEY|_USERNAME\<close> is set, the
  code returns the empty string.
\<close>

theorem Expand_skips_escaped_key:
  "Expand [(''A|B'', ''first''), (''C'', ''second'')] (''${A'' @ [backslash] @ ''|B|C|d}'')
     = Inr ''second''
   \<and> Expand [(''ENV_KEY|_USERNAME'', ''v'')] (''${ENV_KEY'' @ [backslash] @ ''|_USERNAME}'')
       = Inr []"
  by code_simp

section \<open>Load writes only the keys that were absent\<close>

lemma Set_ok:
  "Set env k v = (None, env') \<Longrightarrow>
     CHR ''='' \<notin> set k \<and> (\<forall>K. LookupEnv env' K = (if K = k then Some v else LookupEnv env K))"
  by (auto simp: Set_def Setenv_def LookupEnv_def update_conv' split: if_splits)

lemma Set_err: "Set env k v = (Some err, env') \<Longrightarrow> env' = env"
  by (auto simp: Set_def Setenv_def split: if_splits)

lemma SplitN2_entry: "sep \<notin> set k \<Longrightarrow> hd (SplitN2 (k @ sep # v) sep) = k"
  by (simp add: SplitN2_def takeWhile_sep)

lemma currentKeys_present:
  assumes "LookupEnv env K = Some y" and "CHR ''='' \<notin> set K"
  shows "K \<in> currentKeys env"
proof -
  have "(K, y) \<in> set env"
    using assms(1) by (auto simp: LookupEnv_def split: if_splits dest: map_of_SomeD)
  then have "K @ CHR ''='' # y \<in> set (Environ env)"
    by (force simp: Environ_def)
  then have "hd (SplitN2 (K @ CHR ''='' # y) CHR ''='') \<in> currentKeys env"
    unfolding currentKeys_def by (simp add: image_iff) blast
  then show ?thesis
    using assms(2) by (simp add: SplitN2_entry)
qed

lemma loadEntries_writes:
  "loadEntries cur kvs env = Inr (err, env') \<Longrightarrow> LookupEnv env' K \<noteq> LookupEnv env K \<Longrightarrow>
     K \<notin> cur \<and> CHR ''='' \<notin> set K
     \<and> (\<exists>raw e v. (K, raw) \<in> set kvs \<and> Expand e raw = Inr v \<and> LookupEnv env' K = Some v)"
proof (induction kvs arbitrary: env)
  case Nil
  then show ?case by simp
next
  case (Cons kv kvs)
  obtain k v where kv: "kv = (k, v)" by (cases kv)
  show ?case
  proof (cases "k \<in> cur")
    case True
    then have "loadEntries cur kvs env = Inr (err, env')"
      using Cons.prems(1) kv by simp
    from Cons.IH [OF this Cons.prems(2)] show ?thesis by auto
  next
    case False
    then obtain v' where ex: "Expand env v = Inr v'"
      using Cons.prems(1) kv by (cases "Expand env v") auto
    obtain r env1 where st: "Set env k v' = (r, env1)" by (cases "Set env k v'")
    show ?thesis
    proof (cases r)
      case (Some err')
      then have "env' = env"
        using Cons.prems(1) kv False ex st Set_err [of env k v' err' env1] by simp
      then show ?thesis using Cons.prems(2) by simp
    next
      case None
      then have rec: "loadEntries cur kvs env1 = Inr (err, env')"
        using Cons.prems(1) kv False ex st by simp
      note ok = Set_ok [OF st [unfolded None]]
      show ?thesis
      proof (cases "LookupEnv env' K = LookupEnv env1 K")
        case True
        then have "K = k" and "LookupEnv env' K = Some v'"
          using ok Cons.prems(2) by (auto split: if_splits)
        then show ?thesis
          using False ok ex kv by auto
      next
        case False
        from Cons.IH [OF rec False] show ?thesis by auto
      qed
    qed
  qed
qed

lemma loadFiles_writes:
  "loadFiles Read cur fs env = Inr (err, env') \<Longrightarrow> LookupEnv env' K \<noteq> LookupEnv env K \<Longrightarrow>
     K \<notin> cur \<and> CHR ''='' \<notin> set K
     \<and> (\<exists>f m raw e v. f \<in> set fs \<and> Read f = Inr m \<and> (K, raw) \<in> set m
            \<and> Expand e raw = Inr v \<and> LookupEnv env' K = Some v)"
proof (induction fs arbitrary: env)
  case Nil
  then show ?case by simp
next
  case (Cons f fs)
  show ?case
  proof (cases "Read f")
    case (Inl e)
    then show ?thesis using Cons.prems by simp
  next
    case (Inr m)
    then obtain r env1 where le: "loadEntries cur m env = Inr (r, env1)"
      using Cons.prems(1) by (cases "loadEntries cur m env") auto
    have here: "K \<notin> cur \<and> CHR ''='' \<notin> set K
        \<and> (\<exists>f' m raw e v. f' \<in> set (f # fs) \<and> Read f' = Inr m \<and> (K, raw) \<in> set m
              \<and> Expand e raw = Inr v \<and> LookupEnv env1 K = Some v)"
      if "LookupEnv env1 K \<noteq> LookupEnv env K"
    proof -
      from loadEntries_writes [OF le that] obtain raw e v where
        "K \<notin> cur" "CHR ''='' \<notin> set K" "(K, raw) \<in> set m" "Expand e raw = Inr v"
        "LookupEnv env1 K = Some v" by blast
      then show ?thesis using Inr by (intro conjI exI [of _ f] exI [of _ m]
            exI [of _ raw] exI [of _ e] exI [of _ v]) simp_all
    qed
    show ?thesis
    proof (cases r)
      case (Some err')
      then have "env' = env1"
        using Cons.prems(1) Inr le by simp
      then show ?thesis using here Cons.prems(2) by simp
    next
      case None
      then have rec: "loadFiles Read cur fs env1 = Inr (err, env')"
        using Cons.prems(1) Inr le by simp
      show ?thesis
      proof (cases "LookupEnv env' K = LookupEnv env1 K")
        case True
        then show ?thesis using here Cons.prems(2) by simp
      next
        case False
        from Cons.IH [OF rec False] obtain f' m' raw e v where
          "K \<notin> cur" "CHR ''='' \<notin> set K" "f' \<in> set fs" "Read f' = Inr m'"
          "(K, raw) \<in> set m'" "Expand e raw = Inr v" "LookupEnv env' K = Some v" by blast
        then show ?thesis by (intro conjI exI [of _ f'] exI [of _ m']
              exI [of _ raw] exI [of _ e] exI [of _ v]) simp_all
      qed
    qed
  qed
qed

text \<open>
  Claim C6: when \<open>Load\<close> returns (with \<^verbatim>\<open>nil\<close>, and with an error too), every key that
  was in the environment when the call began still has its value: \<open>Get K\<close> is the \<open>y\<close>
  it was, also when a file defines \<open>K\<close>. A key whose entry differs after the call
  was absent at the start, and its value is the expansion (by \<open>Expand\<close>, in an
  environment of the load) of a raw value that one of the files read gives for it.
\<close>

theorem Load_keeps_present_keys:
  assumes "Load Read filenames env = Inr (err, env')"
  shows "(\<forall>K y. LookupEnv env K = Some y \<longrightarrow> Get env' K = y)
       \<and> (\<forall>K. LookupEnv env' K \<noteq> LookupEnv env K \<longrightarrow>
             LookupEnv env K = None
             \<and> (\<exists>f m raw e v.
                   f \<in> set (if filenames = [] then [''.env''] else filenames)
                   \<and> Read f = Inr m \<and> (K, raw) \<in> set m
                   \<and> Expand e raw = Inr v \<and> LookupEnv env' K = Some v))"
proof -
  let ?fs = "if filenames = [] then [''.env''] else filenames"
  have lf: "loadFiles Read (currentKeys env) ?fs env = Inr (err, env')"
    using assms unfolding Load_def Let_def
    by (cases "filenames = []") (simp_all del: loadFiles.simps)
  have unchanged: "LookupEnv env' K = LookupEnv env K" if "LookupEnv env K = Some y" for K y
  proof (rule ccontr)
    assume "LookupEnv env' K \<noteq> LookupEnv env K"
    from loadFiles_writes [OF lf this] have "K \<notin> currentKeys env" "CHR ''='' \<notin> set K"
      by auto
    with currentKeys_present [OF that] show False by simp
  qed
  have "Get env' K = y" if "LookupEnv env K = Some y" for K y
    using unchanged [OF that] that by (simp add: Get_def Getenv_def)
  moreover have "LookupEnv env K = None" if "LookupEnv env' K \<noteq> LookupEnv env K" for K
    using unchanged [of K] that by (cases "LookupEnv env K") auto
  moreover have "\<exists>f m raw e v. f \<in> set ?fs \<and> Read f = Inr m \<and> (K, raw) \<in> set m
                   \<and> Expand e raw = Inr v \<and> LookupEnv env' K = Some v"
    if "LookupEnv env' K \<noteq> LookupEnv env K" for K
    using loadFiles_writes [OF lf that] by blast
  ultimately show ?thesis by blast
qed


theorem Load_keeps_present_keys_witness:
  "Load oneFile [] [(''K'', ''y'')] = Inr (None, [(''K'', ''y''), (''N'', ''y/none'')])
   \<and> Get [(''K'', ''y''), (''N'', ''y/none'')] ''K'' = ''y''
   \<and> LookupEnv [(''K'', ''y'')] ''N'' = None"
proof -
  have l: "Load oneFile [] [(''K'', ''y'')] = Inr (None, [(''K'', ''y''), (''N'', ''y/none'')])"
    by code_simp
  have k: "LookupEnv [(''K'', ''y'')] ''K'' = Some ''y''"
    by (simp add: LookupEnv_def)
  have n: "LookupEnv [(''K'', ''y''), (''N'', ''y/none'')] ''N'' \<noteq> LookupEnv [(''K'', ''y'')] ''N''"
    by (simp add: LookupEnv_def)
  show ?thesis
    using l k n Load_keeps_present_keys [OF l] by blast
qed

section \<open>Where Expand follows the algorithm of the specification\<close>

lemma spec_segments_not_Nil: "spec_segments escaped cur s \<noteq> []"
  by (induction s arbitrary: escaped cur) auto

lemma index_pred: "0 < i \<Longrightarrow> i \<le> length key \<Longrightarrow> index key (int i - 1) = Inr (key ! (i - 1))"
  by (auto simp: index_def nat_diff_distrib')

lemma scanKeys_segments:
  assumes "0 < i" and "i \<le> length key" and "st \<le> i"
  shows "\<exists>ks' st'.
           scanKeys key i ks st wd
             = Inr (ks', st', wd \<or> 1 < length (spec_segments (key ! (i - 1) = backslash)
                                                  (take (i - st) (drop st key)) (drop i key)))
           \<and> ks' = ks @ butlast (spec_segments (key ! (i - 1) = backslash)
                                    (take (i - st) (drop st key)) (drop i key))
           \<and> st' \<le> length key
           \<and> drop st' key = last (spec_segments (key ! (i - 1) = backslash)
                                     (take (i - st) (drop st key)) (drop i key))
           \<and> (length (spec_segments (key ! (i - 1) = backslash)
                        (take (i - st) (drop st key)) (drop i key)) = 1 \<longrightarrow> st' = st)"
  using assms
proof (induction "length key - i" arbitrary: i ks st wd)
  case 0
  then have i: "i = length key" by simp
  have "scanKeys key i ks st wd = Inr (ks, st, wd)"
    by (subst scanKeys.simps) (simp add: i)
  then show ?case
    using "0.prems" i by simp
next
  case (Suc n)
  then have lt: "i < length key" by simp
  have dr: "drop i key = key ! i # drop (Suc i) key"
    using lt by (simp add: Cons_nth_drop_Suc)
  have tk: "take (Suc i - st) (drop st key) = take (i - st) (drop st key) @ [key ! i]"
    using lt Suc.prems(3) by (simp add: Suc_diff_le take_Suc_conv_app_nth)
  have ix: "index key (int i - 1) = Inr (key ! (i - 1))"
    using index_pred [of i key] Suc.prems lt by simp
  have sl: "slice key st i = Inr (take (i - st) (drop st key))"
    using lt Suc.prems(3) by (simp add: slice_def)
  have n: "n = length key - Suc i" using Suc.hyps(2) by simp
  show ?case
  proof (cases "key ! i = CHR ''|'' \<and> key ! (i - 1) \<noteq> backslash")
    case True
    have step: "scanKeys key i ks st wd
                  = scanKeys key (Suc i) (ks @ [take (i - st) (drop st key)]) (Suc i) True"
      using True lt ix sl by (simp add: scanKeys.simps [of key i])
    have nb: "(key ! i = backslash) = False"
      using True by (simp add: backslash_def)
    from Suc.hyps(1) [where i = "Suc i" and ks = "ks @ [take (i - st) (drop st key)]"
        and st = "Suc i" and wd = True, OF n]
    obtain ks' st' where
      r: "scanKeys key (Suc i) (ks @ [take (i - st) (drop st key)]) (Suc i) True
            = Inr (ks', st', True)"
      and k: "ks' = (ks @ [take (i - st) (drop st key)])
                @ butlast (spec_segments False [] (drop (Suc i) key))"
      and b: "st' \<le> length key"
      and d: "drop st' key = last (spec_segments False [] (drop (Suc i) key))"
      using lt nb by auto
    show ?thesis
      using True step r k b d dr spec_segments_not_Nil [of False "[]" "drop (Suc i) key"]
      by simp
  next
    case False
    have step: "scanKeys key i ks st wd = scanKeys key (Suc i) ks st wd"
      using False lt ix by (auto simp: scanKeys.simps [of key i])
    have seg: "spec_segments (key ! (i - 1) = backslash) (take (i - st) (drop st key)) (drop i key)
        = spec_segments (key ! i = backslash) (take (Suc i - st) (drop st key)) (drop (Suc i) key)"
      using False dr tk by auto
    from Suc.hyps(1) [where i = "Suc i" and ks = ks and st = st and wd = wd, OF n]
      Suc.prems(3) lt
    show ?thesis
      unfolding step seg by simp
  qed
qed


lemma ReplaceAll_unescape: "ReplaceAll d [backslash, CHR ''|''] ''|'' = spec_unescape d"
  by (induction d rule: spec_unescape.induct) auto

lemma lookupKeys_first_set: "lookupKeys env ks d = spec_choose env ks d"
  by (induction ks) (auto simp: spec_choose_def split: option.splits)

lemma scanKeys_from_start:
  assumes "key \<noteq> []" and "key ! 0 \<noteq> CHR ''|''"
  shows "\<exists>st'. scanKeys key 0 [] 0 wd
                 = Inr (butlast (spec_segments False [] key), st',
                        wd \<or> 1 < length (spec_segments False [] key))
               \<and> st' \<le> length key
               \<and> drop st' key = last (spec_segments False [] key)
               \<and> (length (spec_segments False [] key) = 1 \<longrightarrow> st' = 0)"
proof -
  obtain c cs where key: "key = c # cs" using assms(1) by (cases key) auto
  have c: "c \<noteq> CHR ''|''" using assms(2) key by simp
  have step: "scanKeys key 0 [] 0 wd = scanKeys key 1 [] 0 wd"
    using assms by (subst scanKeys.simps) simp
  have seg: "spec_segments False [] key
               = spec_segments (key ! (1 - 1) = backslash) (take (1 - 0) (drop 0 key)) (drop 1 key)"
    using key c by simp
  from scanKeys_segments [of 1 key 0 "[]" wd] assms(1)
  show ?thesis
    unfolding step seg by (cases key) auto
qed

lemma expandKey_rest:
  assumes "key \<noteq> []" and "key ! 0 \<noteq> CHR ''|''"
  shows "(case scanKeys key 0 [] 0 wd of
            Inl p \<Rightarrow> Inl p
          | Inr (envKeys, startIndex, withDefault) \<Rightarrow>
              if \<not> withDefault then Inr (lookupKeys env (envKeys @ [key]) [])
              else (case slice key startIndex (length key) of
                      Inl p \<Rightarrow> Inl p
                    | Inr d \<Rightarrow>
                        Inr (lookupKeys env envKeys (ReplaceAll d [backslash, CHR ''|''] ''|''))))
         = Inr (spec_choose env (spec_written_keys wd (spec_segments False [] key))
                  (spec_default wd (spec_segments False [] key)))"
proof -
  let ?segs = "spec_segments False [] key"
  from scanKeys_from_start [OF assms, of wd] obtain st' where
    r: "scanKeys key 0 [] 0 wd = Inr (butlast ?segs, st', wd \<or> 1 < length ?segs)"
    and b: "st' \<le> length key" and d: "drop st' key = last ?segs"
    and z: "length ?segs = 1 \<longrightarrow> st' = 0" by blast
  have ne: "?segs \<noteq> []" by (rule spec_segments_not_Nil)
  show ?thesis
  proof (cases "wd \<or> 1 < length ?segs")
    case True
    have "slice key st' (length key) = Inr (drop st' key)"
      using b by (simp add: slice_def)
    then have "slice key st' (length key) = Inr (last ?segs)"
      using d by simp
    then show ?thesis
      using True r
      by (simp add: spec_written_keys_def spec_default_def ReplaceAll_unescape
          lookupKeys_first_set)
  next
    case False
    then have one: "length ?segs = 1" using ne by (cases ?segs) auto
    then have "st' = 0" using z by simp
    then have "last ?segs = key" using d by simp
    moreover have "?segs = [last ?segs]" using one by (cases ?segs) auto
    ultimately have "?segs = [key]" by simp
    then show ?thesis
      using r False
      by (simp add: spec_written_keys_def spec_default_def lookupKeys_first_set)
  qed
qed

lemma expandKey_as_written:
  assumes "spec_wellformed body"
  shows "expandKey env body
           = Inr (let trimmed = TrimSpace body;
                      leadingBar = (hd trimmed = CHR ''|'');
                      segments = spec_segments False [] (if leadingBar then tl trimmed else trimmed)
                  in spec_choose env (spec_written_keys leadingBar segments)
                       (spec_default leadingBar segments))"
proof -
  define k where "k = TrimSpace body"
  have k: "k \<noteq> []" and nb: "\<not> prefix ''||'' k"
    using assms by (simp_all add: spec_wellformed_def k_def)
  obtain c cs where kc: "k = c # cs" using k by (cases k) auto
  have ix: "index k 0 = Inr c" and hd: "hd k = c" and tl: "tl k = cs" and dr: "drop 1 k = cs"
    by (simp_all add: index_def kc)
  show ?thesis
  proof (cases "c = CHR ''|''")
    case False
    have "k ! 0 \<noteq> CHR ''|''" using False kc by simp
    from expandKey_rest [OF k this, where wd = False and env = env] show ?thesis
      using False ix hd by (simp add: expandKey_def Let_def k_def [symmetric])
  next
    case True
    show ?thesis
    proof (cases cs)
      case Nil
      have "scanKeys [] 0 [] 0 True = Inr ([], 0, True)"
        by (subst scanKeys.simps) simp
      then show ?thesis
        using True ix hd tl dr Nil
        by (simp add: expandKey_def Let_def k_def [symmetric] slice_def
            spec_written_keys_def spec_default_def spec_choose_def)
    next
      case (Cons d ds)
      then have "cs \<noteq> []" and "cs ! 0 \<noteq> CHR ''|''"
        using nb kc True by auto
      from expandKey_rest [OF this, where wd = True and env = env] show ?thesis
        using True ix hd tl dr by (simp add: expandKey_def Let_def k_def [symmetric])
    qed
  qed
qed

lemma expandKey_spec:
  assumes "spec_wellformed body" and "spec_keys_plain body"
  shows "expandKey env body = Inr (spec_resolve env body)"
  using expandKey_as_written [OF assms(1), of env] assms(2)
  by (simp add: spec_resolve_def spec_pick_def spec_keys_plain_def Let_def)

lemma getShellName_braces:
  assumes "body \<noteq> []" and "CHR ''}'' \<notin> set body"
  shows "getShellName (CHR ''{'' # body @ CHR ''}'' # post) = (body, length body + 2)"
proof (cases "length body = 1")
  case True
  then obtain b where "body = [b]" by (cases body) auto
  then show ?thesis using assms(2) by (auto simp: getShellName_def)
next
  case False
  then obtain b c r where b: "body = b # c # r"
    using assms(1) by (cases body; cases "tl body") auto
  then have "c \<noteq> CHR ''}''" using assms(2) by auto
  then show ?thesis
    using assms takeWhile_sep [of "CHR ''}''" body post] b
    by (simp add: getShellName_def)
qed

lemma os_Expand_prefix:
  "CHR ''$'' \<notin> set pre \<Longrightarrow>
     os_Expand (pre @ s) m = (case os_Expand s m of Inl p \<Rightarrow> Inl p | Inr r \<Rightarrow> Inr (pre @ r))"
  by (induction pre) (auto split: sum.splits)

lemma os_Expand_placeholder:
  assumes "body \<noteq> []" and "CHR ''}'' \<notin> set body" and "CHR ''$'' \<notin> set pre"
  shows "os_Expand (pre @ ''${'' @ body @ ''}'' @ post) m
           = (case m body of
                Inl p \<Rightarrow> Inl p
              | Inr out \<Rightarrow>
                  (case os_Expand post m of
                     Inl p \<Rightarrow> Inl p
                   | Inr rest \<Rightarrow> Inr (pre @ out @ rest)))"
proof -
  have "os_Expand (''${'' @ body @ ''}'' @ post) m
          = (case m body of
               Inl p \<Rightarrow> Inl p
             | Inr out \<Rightarrow>
                 (case os_Expand post m of Inl p \<Rightarrow> Inl p | Inr rest \<Rightarrow> Inr (out @ rest)))"
    using getShellName_braces [OF assms(1,2), of post] assms(1)
    by (simp split: sum.splits)
  then show ?thesis
    using os_Expand_prefix [OF assms(3), of "''${'' @ body @ ''}'' @ post" m]
    by (simp split: sum.splits)
qed

lemma TrimSpace_Nil: "TrimSpace [] = []"
  by (simp add: TrimSpace_def trimLeft.simps [of "[]"] trimRight.simps [of "[]"]
      spaceWidth_def spaceWidthLast_def)

text \<open>
  Where no candidate key is written with an escaped bar, \<open>Expand\<close> does what the
  specification says: in a template that is some text without \<open>$\<close>, a placeholder
  with a well-formed body (which holds no \<open>}\<close>, since the first \<open>}\<close> closes the
  placeholder) and any further template, the placeholder is replaced by the result of
  the algorithm and the further template is expanded in its turn.
\<close>

lemma Expand_placeholder_plain_keys:
  assumes "spec_wellformed body" and "spec_keys_plain body"
    and "CHR ''}'' \<notin> set body" and "CHR ''$'' \<notin> set pre"
  shows "Expand env (pre @ ''${'' @ body @ ''}'' @ post)
           = (case Expand env post of
                Inl p \<Rightarrow> Inl p
              | Inr rest \<Rightarrow> Inr (pre @ spec_resolve env body @ rest))"
proof -
  have "body \<noteq> []"
    using assms(1) TrimSpace_Nil by (auto simp: spec_wellformed_def)
  from os_Expand_placeholder [OF this assms(3,4), of post "expandKey env"]
  show ?thesis
    by (simp add: Expand_def expandKey_spec [OF assms(1,2)])
qed

lemma Expand_placeholder_plain_keys_example:
  "Expand [(''B'', []), (''C'', ''c'')] ''x=${ A|B|def };${A|C|}${A|d}'' = Inr ''x=;cd''"
proof -
  have wf: "spec_wellformed '' A|B|def ''" "spec_wellformed ''A|C|''" "spec_wellformed ''A|d''"
    by code_simp+
  have pl: "spec_keys_plain '' A|B|def ''" "spec_keys_plain ''A|C|''" "spec_keys_plain ''A|d''"
    by code_simp+
  have r: "spec_resolve [(''B'', []), (''C'', ''c'')] '' A|B|def '' = []"
    "spec_resolve [(''B'', []), (''C'', ''c'')] ''A|C|'' = ''c''"
    "spec_resolve [(''B'', []), (''C'', ''c'')] ''A|d'' = ''d''"
    by code_simp+
  have e0: "Expand [(''B'', []), (''C'', ''c'')] [] = Inr []"
    by (simp add: Expand_def)
  show ?thesis
    using Expand_placeholder_plain_keys [OF wf(1) pl(1), where pre = "''x=''"
        and post = "'';${A|C|}${A|d}''" and env = "[(''B'', []), (''C'', ''c'')]"]
      Expand_placeholder_plain_keys [OF wf(2) pl(2), where pre = "'';''"
        and post = "''${A|d}''" and env = "[(''B'', []), (''C'', ''c'')]"]
      Expand_placeholder_plain_keys [OF wf(3) pl(3), where pre = "[]"
        and post = "[]" and env = "[(''B'', []), (''C'', ''c'')]"]
      r e0
    by simp
qed

text \<open>
  At the two bodies where the code skips a candidate key written with an escaped bar,
  the algorithm of the specification finds it.
\<close>

lemma spec_resolve_escaped_key:
  "spec_wellformed (''A'' @ [backslash] @ ''|B|C|d'')
   \<and> spec_resolve [(''A|B'', ''first''), (''C'', ''second'')] (''A'' @ [backslash] @ ''|B|C|d'')
       = ''first''
   \<and> spec_wellformed (''ENV_KEY'' @ [backslash] @ ''|_USERNAME'')
   \<and> spec_resolve [(''ENV_KEY|_USERNAME'', ''v'')] (''ENV_KEY'' @ [backslash] @ ''|_USERNAME'')
       = ''v''"
  by code_simp

end
